theory Spec2Isabelle
  imports Complex_Main "HOL-Library.Stream"
begin

section \<open>The \<open>group_texts\<close> transform of \<open>run_pretrained.py\<close>\<close>

text \<open>
  The development embeds the function \<open>group_texts\<close> (lines 416--557 of
  \<open>src/run_pretrained.py\<close>) together with its nested \<open>truncate_seq_pair\<close>.
  Python lists of integers are \<open>int list\<close>, Python integers are \<open>int\<close>, list lengths are
  \<open>nat\<close> and are cast with \<open>int\<close> where the source compares them with an integer.
  A raised exception is the left injection of a sum; a \<open>while\<close> loop whose exit is not
  structural is a \<open>partial_function\<close> in the option monad, where \<open>None\<close> means that the
  loop never returns.
\<close>

subsection \<open>Exceptions\<close>

datatype error = AssertionError | IndexError | ValueError

subsection \<open>The module \<open>random\<close>\<close>

text \<open>
  The generator is global mutable state of the Python runtime. Here it is an explicit
  infinite stream of draws that every call consumes one cell of and returns the rest of.
  A cell is a real number; its fractional part is the value in \<open>[0, 1)\<close> that
  \<open>random.random()\<close> returns, and \<open>random.randint(a, b)\<close> scales the same value to the
  \<open>b - a + 1\<close> integers of \<open>[a, b]\<close>. As in Python, \<open>randint\<close> on an empty range raises
  \<open>ValueError\<close>. Floating-point rounding is not modelled: draws and the thresholds
  \<open>1/3\<close>, \<open>2/3\<close>, \<open>0.5\<close>, \<open>0.1\<close> are exact reals.
\<close>

type_synonym rng = "real stream"

definition random_random :: "rng \<Rightarrow> real \<times> rng" where
  "random_random g = (frac (shd g), stl g)"

definition random_randint :: "int \<Rightarrow> int \<Rightarrow> rng \<Rightarrow> error + int \<times> rng" where
  "random_randint a b g =
     (if b < a then Inl ValueError
      else Inr (a + \<lfloor>frac (shd g) * of_int (b - a + 1)\<rfloor>, stl g))"

subsection \<open>The tokenizer\<close>

text \<open>
  The tokenizer belongs to an external library. The transform uses three of its methods,
  which are parameters of the model: the number of special tokens added to a pair
  (\<open>num_special_tokens_to_add(pair=True)\<close>), the assembly of a pair into one sequence and
  the token type ids of a pair.
\<close>

record tokenizer =
  num_special_tokens_to_add :: int
  build_inputs_with_special_tokens :: "int list \<Rightarrow> int list \<Rightarrow> int list"
  create_token_type_ids_from_sequences :: "int list \<Rightarrow> int list \<Rightarrow> int list"

text \<open>A tokenizer of the BERT family, used for the concrete runs below.\<close>

definition bert_tokenizer :: tokenizer where
  "bert_tokenizer =
     \<lparr> num_special_tokens_to_add = 3,
       build_inputs_with_special_tokens = (\<lambda>a b. [101] @ a @ [102] @ b @ [102]),
       create_token_type_ids_from_sequences =
         (\<lambda>a b. replicate (length a + 2) 0 @ replicate (length b + 1) 1) \<rparr>"

subsection \<open>The output batch\<close>

text \<open>
  \<open>results\<close> is a dictionary of parallel lists (lines 418--420); the model keeps the six
  columns the transform appends to.
\<close>

record results =
  input_ids :: "int list list"
  token_type_ids :: "int list list"
  attention_mask :: "int list list"
  special_tokens_mask :: "int list list"
  next_sentence_label :: "int list"
  segment_ids :: "int list list"

definition empty_results :: results where
  "empty_results =
     \<lparr> input_ids = [], token_type_ids = [], attention_mask = [],
       special_tokens_mask = [], next_sentence_label = [], segment_ids = [] \<rparr>"

subsection \<open>\<open>truncate_seq_pair\<close> (lines 518--534)\<close>

text \<open>
  One iteration of the loop body after the exit test (lines 524--534). The source binds
  \<open>trunc_tokens\<close> and \<open>trunc_segment_ids\<close> to one of the caller's lists each, by two separate
  length comparisons, and mutates them in place; the model records which list each alias
  points to and writes the shortened list back to it. \<open>del xs[0]\<close> and \<open>xs.pop()\<close> raise
  \<open>IndexError\<close> on an empty list.
\<close>

definition del_first :: "int list \<Rightarrow> error + int list" where
  "del_first xs = (if xs = [] then Inl IndexError else Inr (tl xs))"

definition pop_last :: "int list \<Rightarrow> error + int list" where
  "pop_last xs = (if xs = [] then Inl IndexError else Inr (butlast xs))"

definition trunc_iteration ::
  "int list \<Rightarrow> int list \<Rightarrow> int list \<Rightarrow> int list \<Rightarrow> rng \<Rightarrow>
   error + (int list \<times> int list \<times> int list \<times> int list \<times> rng)" where
  "trunc_iteration tokens_a tokens_b a_segment_ids b_segment_ids g =
     (let tokens_is_a = (length tokens_a > length tokens_b);
          segment_ids_is_a = (length a_segment_ids > length b_segment_ids);
          trunc_tokens = (if tokens_is_a then tokens_a else tokens_b);
          trunc_segment_ids = (if segment_ids_is_a then a_segment_ids else b_segment_ids)
      in if \<not> length trunc_tokens \<ge> 1 then Inl AssertionError
         else
           let (r, g') = random_random g;
               remove = (if r < 1 / 2 then del_first else pop_last)
           in case remove trunc_tokens of
                Inl e \<Rightarrow> Inl e
              | Inr trunc_tokens' \<Rightarrow>
                  (case remove trunc_segment_ids of
                     Inl e \<Rightarrow> Inl e
                   | Inr trunc_segment_ids' \<Rightarrow>
                       Inr (if tokens_is_a then trunc_tokens' else tokens_a,
                            if tokens_is_a then tokens_b else trunc_tokens',
                            if segment_ids_is_a then trunc_segment_ids' else a_segment_ids,
                            if segment_ids_is_a then b_segment_ids else trunc_segment_ids',
                            g')))"

partial_function (option) truncate_seq_pair ::
  "int list \<Rightarrow> int list \<Rightarrow> int \<Rightarrow> int list \<Rightarrow> int list \<Rightarrow> rng \<Rightarrow>
   (error + (int list \<times> int list \<times> int list \<times> int list \<times> rng)) option" where
  "truncate_seq_pair tokens_a tokens_b max_num_tokens a_segment_ids b_segment_ids g =
     (let total_length = int (length tokens_a) + int (length tokens_b)
      in if total_length \<le> max_num_tokens
         then Some (Inr (tokens_a, tokens_b, a_segment_ids, b_segment_ids, g))
         else
           (case trunc_iteration tokens_a tokens_b a_segment_ids b_segment_ids g of
              Inl e \<Rightarrow> Some (Inl e)
            | Inr (tokens_a', tokens_b', a_segment_ids', b_segment_ids', g') \<Rightarrow>
                truncate_seq_pair tokens_a' tokens_b' max_num_tokens
                  a_segment_ids' b_segment_ids' g'))"

subsection \<open>Collecting the chunks of the batch (lines 438--457)\<close>

text \<open>
  The first \<open>while\<close> loop builds \<open>total_chunk\<close>. The index \<open>i\<close> advances in every
  iteration, so the loop is a total recursive function on \<open>length examples - i\<close>.
  \<open>examples\<close> is the column \<open>examples['input_ids']\<close>.
\<close>

function get_all_chunk_loop ::
  "int list list \<Rightarrow> int \<Rightarrow> nat \<Rightarrow> int list list \<Rightarrow> int \<Rightarrow> int list list list \<Rightarrow>
   int list list list" where
  "get_all_chunk_loop examples target_seq_length i current_chunk current_length total_chunk =
     (if i < length examples then
        (let segment = examples ! i
         in if segment = [] then
              get_all_chunk_loop examples target_seq_length (i + 1)
                current_chunk current_length total_chunk
            else
              (let current_chunk' = current_chunk @ [examples ! i];
                   current_length' = current_length + int (length segment)
               in if int i = int (length examples) - 1 \<or> current_length' \<ge> target_seq_length
                  then get_all_chunk_loop examples target_seq_length (i + 1) [] 0
                         (if current_chunk' \<noteq> [] then total_chunk @ [current_chunk']
                          else total_chunk)
                  else get_all_chunk_loop examples target_seq_length (i + 1)
                         current_chunk' current_length' total_chunk))
      else total_chunk)"
  by pat_completeness auto
termination
  by (relation "measure (\<lambda>(examples, t, i, c, l, tc). length examples - i)") auto

definition get_all_chunk :: "int list list \<Rightarrow> int \<Rightarrow> int list list list" where
  "get_all_chunk examples target_seq_length =
     get_all_chunk_loop examples target_seq_length 0 [] 0 []"

subsection \<open>Splitting a chunk into A and B (lines 479--496)\<close>

text \<open>
  \<open>a_end\<close> is \<open>1\<close>, or a draw from \<open>[1, len(current_chunk) - 1]\<close> when the chunk has at
  least two segments; it is never negative. Reading \<open>current_chunk[j]\<close> for
  \<open>j < a_end\<close> raises \<open>IndexError\<close> when \<open>a_end\<close> exceeds the number of segments.
  The result is \<open>(tokens_a, tokens_b, a_segment_ids, b_segment_ids)\<close> and the generator.
\<close>

definition split_chunk ::
  "int list list \<Rightarrow> rng \<Rightarrow> error + (int list \<times> int list \<times> int list \<times> int list \<times> rng)" where
  "split_chunk current_chunk g =
     (case (if length current_chunk \<ge> 2
            then random_randint 1 (int (length current_chunk) - 1) g
            else Inr (1, g)) of
        Inl e \<Rightarrow> Inl e
      | Inr (a_end, g') \<Rightarrow>
          if nat a_end > length current_chunk then Inl IndexError
          else
            Inr (concat (map (\<lambda>j. current_chunk ! j) [0..<nat a_end]),
                 concat (map (\<lambda>j. current_chunk ! j) [nat a_end..<length current_chunk]),
                 concat (map (\<lambda>j. replicate (length (current_chunk ! j)) (int j))
                           [0..<nat a_end]),
                 concat (map (\<lambda>j. replicate (length (current_chunk ! j)) (int j))
                           [nat a_end..<length current_chunk]),
                 g'))"

subsection \<open>Choosing the relation (lines 501--516)\<close>

text \<open>
  The subscript \<open>total_chunk[rid]\<close>: an index from \<open>0\<close> up to the length reads from
  the front, one from \<open>-len\<close> up to \<open>-1\<close> reads from the back, any other raises.
\<close>

definition list_index :: "'a list \<Rightarrow> int \<Rightarrow> error + 'a" where
  "list_index xs i =
     (if 0 \<le> i \<and> i < int (length xs) then Inr (xs ! nat i)
      else if - int (length xs) \<le> i \<and> i < 0 then Inr (xs ! nat (int (length xs) + i))
      else Inl IndexError)"

text \<open>
  The rejection loop of lines 508--511 draws an index of \<open>total_chunk\<close> until it differs
  from \<open>chunk_id\<close>. It has no bound; \<open>n\<close> is \<open>len(total_chunk)\<close>.
\<close>

partial_function (option) choose_rid ::
  "int \<Rightarrow> int \<Rightarrow> rng \<Rightarrow> (error + int \<times> rng) option" where
  "choose_rid n chunk_id g =
     (case random_randint 0 (n - 1) g of
        Inl e \<Rightarrow> Some (Inl e)
      | Inr (rid, g') \<Rightarrow>
          if rid \<noteq> chunk_id then Some (Inr (rid, g')) else choose_rid n chunk_id g')"

text \<open>
  \<open>chunk_tokens\<close> is \<open>sum(another_chunk, [])\<close> and \<open>chunk_segment_ids\<close> is
  \<open>sum([[acid]*len(ac) for acid, ac in enumerate(another_chunk)], [])\<close>.
\<close>

definition chunk_tokens :: "int list list \<Rightarrow> int list" where
  "chunk_tokens another_chunk = concat another_chunk"

definition chunk_segment_ids :: "int list list \<Rightarrow> int list" where
  "chunk_segment_ids another_chunk =
     concat (map (\<lambda>(acid, ac). replicate (length ac) (int acid)) (enumerate 0 another_chunk))"

text \<open>
  The result is \<open>(is_next, tokens_a, tokens_b, a_segment_ids, b_segment_ids)\<close> and the
  generator.
\<close>

definition sample_relation ::
  "int list \<Rightarrow> int list \<Rightarrow> int list \<Rightarrow> int list \<Rightarrow> int list list list \<Rightarrow> int \<Rightarrow> rng \<Rightarrow>
   (error + (int \<times> int list \<times> int list \<times> int list \<times> int list \<times> rng)) option" where
  "sample_relation tokens_a tokens_b a_segment_ids b_segment_ids total_chunk chunk_id g =
     (let (rdn, g1) = random_random g
      in if rdn < 1 / 3 then
           Some (Inr (1, tokens_b, tokens_a, b_segment_ids, a_segment_ids, g1))
         else if rdn < 2 / 3 \<and> length total_chunk > 1 then
           (case choose_rid (int (length total_chunk)) chunk_id g1 of
              None \<Rightarrow> None
            | Some (Inl e) \<Rightarrow> Some (Inl e)
            | Some (Inr (rid, g2)) \<Rightarrow>
                (case list_index total_chunk rid of
                   Inl e \<Rightarrow> Some (Inl e)
                 | Inr another_chunk \<Rightarrow>
                     Some (Inr (2, tokens_a, chunk_tokens another_chunk,
                                a_segment_ids, chunk_segment_ids another_chunk, g2))))
         else Some (Inr (0, tokens_a, tokens_b, a_segment_ids, b_segment_ids, g1)))"

subsection \<open>Assembling the instance (lines 537--553)\<close>

definition renumber_a :: "int list \<Rightarrow> int list" where
  "renumber_a a_segment_ids = map (\<lambda>asi. asi - hd a_segment_ids + 1) a_segment_ids"

definition renumber_b :: "int list \<Rightarrow> int list \<Rightarrow> int list" where
  "renumber_b a' b_segment_ids =
     map (\<lambda>bsi. bsi - hd b_segment_ids + last a' + 2) b_segment_ids"

definition build_segment_ids :: "int list \<Rightarrow> int list \<Rightarrow> int list" where
  "build_segment_ids a_segment_ids b_segment_ids =
     (let a' = renumber_a a_segment_ids;
          b' = renumber_b a' b_segment_ids
      in [0] @ a' @ [last a' + 1] @ b' @ [last b' + 1])"

text \<open>
  The two assertions of lines 542--543 come after the tokenizer calls and before the
  appends. With an empty \<open>a_segment_ids\<close> or \<open>b_segment_ids\<close> the comprehension over it
  yields the empty list and the subscript \<open>[-1]\<close> of line 552 or of line 553 raises
  \<open>IndexError\<close>; with both non-empty no subscript of lines 551--553 can fail.
\<close>

definition append_instance ::
  "tokenizer \<Rightarrow> int \<Rightarrow> int list \<Rightarrow> int list \<Rightarrow> int list \<Rightarrow> int list \<Rightarrow> results \<Rightarrow>
   error + results" where
  "append_instance tk is_next tokens_a tokens_b a_segment_ids b_segment_ids res =
     (let ids = build_inputs_with_special_tokens tk tokens_a tokens_b;
          type_ids = create_token_type_ids_from_sequences tk tokens_a tokens_b;
          mask = replicate (length ids) 1
      in if \<not> length tokens_a \<ge> 1 then Inl AssertionError
         else if \<not> length tokens_b \<ge> 1 then Inl AssertionError
         else if a_segment_ids = [] \<or> b_segment_ids = [] then Inl IndexError
         else
           Inr \<lparr> input_ids = input_ids res @ [ids],
                 token_type_ids = token_type_ids res @ [type_ids],
                 attention_mask = attention_mask res @ [mask],
                 special_tokens_mask = special_tokens_mask res @
                   [[1] @ replicate (length tokens_a) 0 @ [1] @
                    replicate (length tokens_b) 0 @ [1]],
                 next_sentence_label = next_sentence_label res @ [is_next],
                 segment_ids = segment_ids res @
                   [build_segment_ids a_segment_ids b_segment_ids] \<rparr>)"

subsection \<open>One flushed chunk of the second loop (lines 479--553)\<close>

text \<open>
  \<open>Skipped\<close> is the \<open>continue\<close> of line 499; \<open>Emitted\<close> carries the batch with the new
  instance appended. \<open>chunk_id\<close> is the value after the increment of line 478.
\<close>

datatype flush_outcome = Skipped rng | Emitted results rng

definition create_instance ::
  "tokenizer \<Rightarrow> int \<Rightarrow> int list list list \<Rightarrow> int list list \<Rightarrow> int \<Rightarrow> results \<Rightarrow> rng \<Rightarrow>
   (error + flush_outcome) option" where
  "create_instance tk max_num_tokens total_chunk current_chunk chunk_id res g =
     (case split_chunk current_chunk g of
        Inl e \<Rightarrow> Some (Inl e)
      | Inr (tokens_a, tokens_b, a_segment_ids, b_segment_ids, g1) \<Rightarrow>
          if length tokens_a = 0 \<or> length tokens_b = 0 then Some (Inr (Skipped g1))
          else
            (case sample_relation tokens_a tokens_b a_segment_ids b_segment_ids
                    total_chunk chunk_id g1 of
               None \<Rightarrow> None
             | Some (Inl e) \<Rightarrow> Some (Inl e)
             | Some (Inr (is_next, ta, tb, sa, sb, g2)) \<Rightarrow>
                 (case truncate_seq_pair ta tb max_num_tokens sa sb g2 of
                    None \<Rightarrow> None
                  | Some (Inl e) \<Rightarrow> Some (Inl e)
                  | Some (Inr (ta', tb', sa', sb', g3)) \<Rightarrow>
                      (case append_instance tk is_next ta' tb' sa' sb' res of
                         Inl e \<Rightarrow> Some (Inl e)
                       | Inr res' \<Rightarrow> Some (Inr (Emitted res' g3))))))"

subsection \<open>The second loop (lines 464--556)\<close>

text \<open>
  After the \<open>continue\<close> of line 499 the loop resumes at its head with \<open>i\<close>,
  \<open>current_chunk\<close> and \<open>current_length\<close> as they are and \<open>chunk_id\<close> already incremented:
  lines 554--556 are not reached.
\<close>

partial_function (option) create_instances ::
  "tokenizer \<Rightarrow> int list list \<Rightarrow> int \<Rightarrow> int \<Rightarrow> int list list list \<Rightarrow>
   nat \<Rightarrow> int list list \<Rightarrow> int \<Rightarrow> int \<Rightarrow> results \<Rightarrow> rng \<Rightarrow> (error + results \<times> rng) option" where
  "create_instances tk examples max_num_tokens target_seq_length total_chunk
     i current_chunk current_length chunk_id res g =
     (if i < length examples then
        (let segment = examples ! i
         in if segment = [] then
              create_instances tk examples max_num_tokens target_seq_length total_chunk
                (i + 1) current_chunk current_length chunk_id res g
            else
              (let current_chunk' = current_chunk @ [examples ! i];
                   current_length' = current_length + int (length segment)
               in if int i = int (length examples) - 1 \<or> current_length' \<ge> target_seq_length
                  then
                    (if current_chunk' \<noteq> [] then
                       (case create_instance tk max_num_tokens total_chunk current_chunk'
                               (chunk_id + 1) res g of
                          None \<Rightarrow> None
                        | Some (Inl e) \<Rightarrow> Some (Inl e)
                        | Some (Inr (Skipped g')) \<Rightarrow>
                            create_instances tk examples max_num_tokens target_seq_length
                              total_chunk i current_chunk' current_length' (chunk_id + 1) res g'
                        | Some (Inr (Emitted res' g')) \<Rightarrow>
                            create_instances tk examples max_num_tokens target_seq_length
                              total_chunk (i + 1) [] 0 (chunk_id + 1) res' g')
                     else
                       create_instances tk examples max_num_tokens target_seq_length
                         total_chunk (i + 1) [] 0 chunk_id res g)
                  else
                    create_instances tk examples max_num_tokens target_seq_length total_chunk
                      (i + 1) current_chunk' current_length' chunk_id res g))
      else Some (Inr (res, g)))"

subsection \<open>One repetition and the whole transform (lines 416--557)\<close>

definition one_pass ::
  "tokenizer \<Rightarrow> int \<Rightarrow> int list list \<Rightarrow> results \<Rightarrow> rng \<Rightarrow> (error + results \<times> rng) option" where
  "one_pass tk max_seq_length examples res g =
     (let max_num_tokens = max_seq_length - num_special_tokens_to_add tk;
          (r, g1) = random_random g
      in case (if r < 1 / 10 then random_randint 2 max_num_tokens g1
               else Inr (max_num_tokens, g1)) of
           Inl e \<Rightarrow> Some (Inl e)
         | Inr (target_seq_length, g2) \<Rightarrow>
             create_instances tk examples max_num_tokens target_seq_length
               (get_all_chunk examples target_seq_length) 0 [] 0 (- 1) res g2)"

fun passes ::
  "nat \<Rightarrow> tokenizer \<Rightarrow> int \<Rightarrow> int list list \<Rightarrow> results \<Rightarrow> rng \<Rightarrow>
   (error + results \<times> rng) option" where
  "passes 0 tk max_seq_length examples res g = Some (Inr (res, g))"
| "passes (Suc n) tk max_seq_length examples res g =
     (case one_pass tk max_seq_length examples res g of
        None \<Rightarrow> None
      | Some (Inl e) \<Rightarrow> Some (Inl e)
      | Some (Inr (res', g')) \<Rightarrow> passes n tk max_seq_length examples res' g')"

text \<open>
  \<open>dupe_factor\<close> is \<open>data_args.dupe_factor\<close> and \<open>max_seq_length\<close> the variable of that
  name of the enclosing script; \<open>range(dupe_factor)\<close> is empty for a non-positive value.
  The result is the output batch and the state the generator is left in.
\<close>

definition group_texts ::
  "tokenizer \<Rightarrow> int \<Rightarrow> int \<Rightarrow> int list list \<Rightarrow> rng \<Rightarrow> (error + results \<times> rng) option" where
  "group_texts tk max_seq_length dupe_factor examples g =
     passes (nat dupe_factor) tk max_seq_length examples empty_results g"

section \<open>Properties of the truncation\<close>

lemma trunc_iteration_length:
  assumes "trunc_iteration ta tb sa sb g = Inr (ta', tb', sa', sb', g')"
  shows "length ta' + length tb' + 1 = length ta + length tb"
  using assms
  by (auto simp: trunc_iteration_def Let_def del_first_def pop_last_def
      split: if_splits sum.splits prod.splits)

lemma truncate_seq_pair_returns:
  "\<exists>r. truncate_seq_pair ta tb m sa sb g = Some r"
proof (induction "length ta + length tb" arbitrary: ta tb sa sb g rule: less_induct)
  case less
  show ?case
  proof (cases "int (length ta) + int (length tb) \<le> m")
    case True
    then show ?thesis by (subst truncate_seq_pair.simps) simp
  next
    case False
    show ?thesis
    proof (cases "trunc_iteration ta tb sa sb g")
      case (Inl e)
      with False show ?thesis by (subst truncate_seq_pair.simps) simp
    next
      case (Inr p)
      obtain ta' tb' sa' sb' g' where p: "p = (ta', tb', sa', sb', g')"
        by (cases p) auto
      from Inr p have "length ta' + length tb' < length ta + length tb"
        using trunc_iteration_length [of ta tb sa sb g ta' tb' sa' sb' g'] by simp
      from less [OF this] obtain r where "truncate_seq_pair ta' tb' m sa' sb' g' = Some r"
        by blast
      with False Inr p show ?thesis by (subst truncate_seq_pair.simps) simp
    qed
  qed
qed


lemma trunc_iteration_no_assert:
  assumes "ta \<noteq> [] \<or> tb \<noteq> []"
  shows "trunc_iteration ta tb sa sb g \<noteq> Inl AssertionError"
  using assms
  by (auto simp: trunc_iteration_def Let_def del_first_def pop_last_def Suc_le_eq
      split: if_splits sum.splits prod.splits)

lemma trunc_iteration_nonempty:
  assumes "trunc_iteration ta tb sa sb g = Inr (ta', tb', sa', sb', g')"
    and "ta \<noteq> []" "tb \<noteq> []" "3 \<le> length ta + length tb"
  shows "ta' \<noteq> [] \<and> tb' \<noteq> []"
proof -
  have tl_ne: "xs \<noteq> []" if "2 \<le> length xs" "xs = tl ys \<or> xs = butlast ys"
    for xs ys :: "int list" using that by auto
  have big_a: "2 \<le> length ta" if "length tb < length ta" using that assms(4) by linarith
  have big_b: "2 \<le> length tb" if "\<not> length tb < length ta" using that assms(4) by linarith
  have la: "tl ta \<noteq> [] \<and> butlast ta \<noteq> []" if "length tb < length ta"
    using big_a [OF that] by (cases ta; cases "tl ta") auto
  have lb: "tl tb \<noteq> [] \<and> butlast tb \<noteq> []" if "\<not> length tb < length ta"
    using big_b [OF that] by (cases tb; cases "tl tb") auto
  show ?thesis
    using assms(1-3) la lb
    by (auto simp: trunc_iteration_def Let_def del_first_def pop_last_def Suc_le_eq
        split: if_splits sum.splits prod.splits)
qed

lemma trunc_iteration_aligned:
  assumes "length sa = length ta" "length sb = length tb" "ta \<noteq> [] \<or> tb \<noteq> []"
  shows "\<exists>ta' tb' sa' sb' g'. trunc_iteration ta tb sa sb g = Inr (ta', tb', sa', sb', g')
           \<and> length sa' = length ta' \<and> length sb' = length tb'"
proof -
  have ne: "sa \<noteq> []" if "length tb < length ta" using that assms(1) by auto
  have ne': "sb \<noteq> []" if "\<not> length tb < length ta" using that assms(2,3) by auto
  show ?thesis
    using assms ne ne'
    by (auto simp: trunc_iteration_def Let_def del_first_def pop_last_def Suc_le_eq
        split: if_splits sum.splits prod.splits)
qed

lemma truncate_seq_pair_invariant:
  assumes "ta \<noteq> []" "tb \<noteq> []" "2 \<le> m"
  shows "\<exists>r. truncate_seq_pair ta tb m sa sb g = Some r \<and> r \<noteq> Inl AssertionError \<and>
           (\<forall>ta' tb' sa' sb' g'. r = Inr (ta', tb', sa', sb', g') \<longrightarrow>
              int (length ta') + int (length tb') \<le> m \<and> ta' \<noteq> [] \<and> tb' \<noteq> []) \<and>
           (length sa = length ta \<and> length sb = length tb \<longrightarrow>
              (\<exists>ta' tb' sa' sb' g'. r = Inr (ta', tb', sa', sb', g') \<and>
                 length sa' = length ta' \<and> length sb' = length tb'))"
  using assms
proof (induction "length ta + length tb" arbitrary: ta tb sa sb g rule: less_induct)
  case less
  show ?case
  proof (cases "int (length ta) + int (length tb) \<le> m")
    case True
    then have "truncate_seq_pair ta tb m sa sb g = Some (Inr (ta, tb, sa, sb, g))"
      by (subst truncate_seq_pair.simps) simp
    with True less.prems show ?thesis by simp
  next
    case False
    with less.prems have big: "3 \<le> length ta + length tb" by linarith
    have na: "trunc_iteration ta tb sa sb g \<noteq> Inl AssertionError"
      using less.prems trunc_iteration_no_assert by blast
    show ?thesis
    proof (cases "trunc_iteration ta tb sa sb g")
      case (Inl e)
      with False have eq: "truncate_seq_pair ta tb m sa sb g = Some (Inl e)"
        by (subst truncate_seq_pair.simps) simp
      have "\<not> (length sa = length ta \<and> length sb = length tb)"
        using trunc_iteration_aligned [of sa ta sb tb g] less.prems Inl by auto
      with eq na Inl show ?thesis by auto
    next
      case (Inr p)
      obtain ta' tb' sa' sb' g' where p: "p = (ta', tb', sa', sb', g')"
        by (cases p) auto
      have it: "trunc_iteration ta tb sa sb g = Inr (ta', tb', sa', sb', g')"
        using Inr p by simp
      have lt: "length ta' + length tb' < length ta + length tb"
        using trunc_iteration_length [OF it] by simp
      have ne: "ta' \<noteq> []" "tb' \<noteq> []"
        using trunc_iteration_nonempty [OF it less.prems(1,2) big] by simp_all
      have eq: "truncate_seq_pair ta tb m sa sb g = truncate_seq_pair ta' tb' m sa' sb' g'"
        using False it by (subst truncate_seq_pair.simps) simp
      have al: "length sa' = length ta' \<and> length sb' = length tb'"
        if "length sa = length ta \<and> length sb = length tb"
        using trunc_iteration_aligned [of sa ta sb tb g] that less.prems it by auto
      from less.hyps [OF lt ne less.prems(3), of sa' sb' g'] al eq
      show ?thesis by auto
    qed
  qed
qed

lemma truncate_seq_pair_exit:
  "int (length ta) + int (length tb) \<le> m \<Longrightarrow>
   truncate_seq_pair ta tb m sa sb g = Some (Inr (ta, tb, sa, sb, g))"
  by (subst truncate_seq_pair.simps) simp

lemma truncate_seq_pair_iterate:
  "\<not> int (length ta) + int (length tb) \<le> m \<Longrightarrow>
   truncate_seq_pair ta tb m sa sb g =
     (case trunc_iteration ta tb sa sb g of
        Inl e \<Rightarrow> Some (Inl e)
      | Inr (ta', tb', sa', sb', g') \<Rightarrow> truncate_seq_pair ta' tb' m sa' sb' g')"
  by (subst truncate_seq_pair.simps) simp

lemma trunc_iteration_one_removed:
  assumes "trunc_iteration ta tb sa sb g = Inr (ta', tb', sa', sb', g')"
  shows "(tb' = tb \<and> length ta' + 1 = length ta) \<or> (ta' = ta \<and> length tb' + 1 = length tb)"
  using assms
  by (auto simp: trunc_iteration_def Let_def del_first_def pop_last_def Suc_le_eq
      split: if_splits sum.splits prod.splits)

text \<open>
  Claim C10. \<open>truncate_seq_pair\<close> returns on every input, whatever the generator
  yields: an iteration either leaves the loop (when the two token lists fit), raises, or
  removes exactly one element from exactly one token list, so the total length strictly
  decreases; with two empty lists and a negative budget it stops with the assertion
  failure.
\<close>

theorem truncate_seq_pair_terminates:
  "(\<exists>r. truncate_seq_pair tokens_a tokens_b max_num_tokens a_segment_ids b_segment_ids g = Some r) \<and>
   (int (length tokens_a) + int (length tokens_b) \<le> max_num_tokens \<longrightarrow>
      truncate_seq_pair tokens_a tokens_b max_num_tokens a_segment_ids b_segment_ids g =
        Some (Inr (tokens_a, tokens_b, a_segment_ids, b_segment_ids, g))) \<and>
   (\<not> int (length tokens_a) + int (length tokens_b) \<le> max_num_tokens \<longrightarrow>
      (case trunc_iteration tokens_a tokens_b a_segment_ids b_segment_ids g of
         Inl e \<Rightarrow>
           truncate_seq_pair tokens_a tokens_b max_num_tokens a_segment_ids b_segment_ids g =
             Some (Inl e)
       | Inr (ta, tb, sa, sb, g') \<Rightarrow>
           ((tb = tokens_b \<and> length ta + 1 = length tokens_a) \<or>
            (ta = tokens_a \<and> length tb + 1 = length tokens_b)) \<and>
           length ta + length tb < length tokens_a + length tokens_b \<and>
           truncate_seq_pair tokens_a tokens_b max_num_tokens a_segment_ids b_segment_ids g =
             truncate_seq_pair ta tb max_num_tokens sa sb g')) \<and>
   (tokens_a = [] \<and> tokens_b = [] \<and> max_num_tokens < 0 \<longrightarrow>
      truncate_seq_pair tokens_a tokens_b max_num_tokens a_segment_ids b_segment_ids g =
        Some (Inl AssertionError))"
proof (intro conjI impI)
  show "\<exists>r. truncate_seq_pair tokens_a tokens_b max_num_tokens a_segment_ids b_segment_ids g = Some r"
    by (rule truncate_seq_pair_returns)
next
  assume "int (length tokens_a) + int (length tokens_b) \<le> max_num_tokens"
  then show "truncate_seq_pair tokens_a tokens_b max_num_tokens a_segment_ids b_segment_ids g =
        Some (Inr (tokens_a, tokens_b, a_segment_ids, b_segment_ids, g))"
    by (rule truncate_seq_pair_exit)
next
  assume more: "\<not> int (length tokens_a) + int (length tokens_b) \<le> max_num_tokens"
  show "case trunc_iteration tokens_a tokens_b a_segment_ids b_segment_ids g of
         Inl e \<Rightarrow>
           truncate_seq_pair tokens_a tokens_b max_num_tokens a_segment_ids b_segment_ids g =
             Some (Inl e)
       | Inr (ta, tb, sa, sb, g') \<Rightarrow>
           ((tb = tokens_b \<and> length ta + 1 = length tokens_a) \<or>
            (ta = tokens_a \<and> length tb + 1 = length tokens_b)) \<and>
           length ta + length tb < length tokens_a + length tokens_b \<and>
           truncate_seq_pair tokens_a tokens_b max_num_tokens a_segment_ids b_segment_ids g =
             truncate_seq_pair ta tb max_num_tokens sa sb g'"
  proof (cases "trunc_iteration tokens_a tokens_b a_segment_ids b_segment_ids g")
    case (Inl e)
    then show ?thesis using truncate_seq_pair_iterate [OF more] by simp
  next
    case (Inr p)
    obtain ta tb sa sb g' where p: "p = (ta, tb, sa, sb, g')" by (cases p) auto
    have it: "trunc_iteration tokens_a tokens_b a_segment_ids b_segment_ids g =
        Inr (ta, tb, sa, sb, g')" using Inr p by simp
    show ?thesis
      using it trunc_iteration_one_removed [OF it] trunc_iteration_length [OF it]
        truncate_seq_pair_iterate [OF more, of a_segment_ids b_segment_ids g]
      by simp
  qed
next
  assume deg: "tokens_a = [] \<and> tokens_b = [] \<and> max_num_tokens < 0"
  then have "\<not> int (length tokens_a) + int (length tokens_b) \<le> max_num_tokens" by simp
  from truncate_seq_pair_iterate [OF this] deg
  show "truncate_seq_pair tokens_a tokens_b max_num_tokens a_segment_ids b_segment_ids g =
        Some (Inl AssertionError)"
    by (simp add: trunc_iteration_def)
qed

lemma random_random_sconst0: "random_random (sconst 0) = (0, sconst 0)"
  by (simp add: random_random_def frac_def)

theorem truncate_seq_pair_terminates_witness:
  "truncate_seq_pair [1, 2] [3] 5 [0, 0] [1] (sconst 0) =
     Some (Inr ([1, 2], [3], [0, 0], [1], sconst 0)) \<and>
   truncate_seq_pair [1, 2, 3] [4, 5] 4 [0, 0, 1] [2, 2] (sconst 0) =
     truncate_seq_pair [2, 3] [4, 5] 4 [0, 1] [2, 2] (sconst 0) \<and>
   truncate_seq_pair [] [] (- 1) [] [] (sconst 0) = Some (Inl AssertionError)"
  using truncate_seq_pair_terminates [of "[1, 2]" "[3]" 5 "[0, 0]" "[1]" "sconst 0"]
    truncate_seq_pair_terminates [of "[1, 2, 3]" "[4, 5]" 4 "[0, 0, 1]" "[2, 2]" "sconst 0"]
    truncate_seq_pair_terminates [of "[]" "[]" "- 1" "[]" "[]" "sconst 0"]
  by (simp add: trunc_iteration_def random_random_sconst0 del_first_def)

text \<open>
  Claim C3, as stated, fails on a tie: with two token lists of length two and a budget of
  three the iteration leaves \<open>tokens_a\<close> as it is and removes the first element of
  \<open>tokens_b\<close> and of \<open>b_segment_ids\<close>.
\<close>

theorem truncate_tie_counterexample:
  "truncate_seq_pair [1, 2] [3, 4] 3 [0, 0] [1, 1] (sconst 0) =
     Some (Inr ([1, 2], [4], [0, 0], [1], sconst 0))"
  by (simp add: truncate_seq_pair_iterate truncate_seq_pair_exit trunc_iteration_def
      random_random_sconst0 del_first_def)

text \<open>
  Claim C3, amended. In an iteration where the two token lists exceed the budget, with
  each origin-id list as long as its token list, the strictly longer token list is the
  one trimmed and on a tie \<open>tokens_b\<close> is trimmed; the first element is removed when
  the draw is below one half and the last one otherwise, and the same removal is made
  in the matching origin-id list, the other pair of lists being left as it is.
\<close>

theorem trunc_iteration_trims_longer:
  assumes "length a_segment_ids = length tokens_a" "length b_segment_ids = length tokens_b"
    and "\<not> int (length tokens_a) + int (length tokens_b) \<le> max_num_tokens"
    and "tokens_a \<noteq> [] \<or> tokens_b \<noteq> []"
  shows "\<exists>ta tb sa sb.
     trunc_iteration tokens_a tokens_b a_segment_ids b_segment_ids g =
       Inr (ta, tb, sa, sb, snd (random_random g)) \<and>
     truncate_seq_pair tokens_a tokens_b max_num_tokens a_segment_ids b_segment_ids g =
       truncate_seq_pair ta tb max_num_tokens sa sb (snd (random_random g)) \<and>
     (length tokens_a > length tokens_b \<longrightarrow>
        tb = tokens_b \<and> sb = b_segment_ids \<and>
        (if fst (random_random g) < 1 / 2
         then ta = tl tokens_a \<and> sa = tl a_segment_ids
         else ta = butlast tokens_a \<and> sa = butlast a_segment_ids)) \<and>
     (length tokens_a \<le> length tokens_b \<longrightarrow>
        ta = tokens_a \<and> sa = a_segment_ids \<and>
        (if fst (random_random g) < 1 / 2
         then tb = tl tokens_b \<and> sb = tl b_segment_ids
         else tb = butlast tokens_b \<and> sb = butlast b_segment_ids))"
proof -
  have ne: "a_segment_ids \<noteq> []" if "length tokens_b < length tokens_a"
    using that assms(1) by auto
  have ne': "b_segment_ids \<noteq> [] \<and> tokens_b \<noteq> []" if "\<not> length tokens_b < length tokens_a"
    using that assms(2,4) by auto
  show ?thesis
  proof (cases "length tokens_b < length tokens_a")
    case True
    then have "tokens_a \<noteq> []" by auto
    with True ne [OF True] assms(1,2) show ?thesis
      by (auto simp: truncate_seq_pair_iterate [OF assms(3)] trunc_iteration_def Let_def
          del_first_def pop_last_def Suc_le_eq split: prod.splits)
  next
    case False
    with ne' [OF False] assms(1,2) show ?thesis
      by (auto simp: truncate_seq_pair_iterate [OF assms(3)] trunc_iteration_def Let_def
          del_first_def pop_last_def Suc_le_eq split: prod.splits)
  qed
qed

theorem trunc_iteration_trims_longer_witness:
  "\<exists>ta tb sa sb.
     trunc_iteration [1, 2] [3, 4] [0, 0] [1, 1] (sconst 0) = Inr (ta, tb, sa, sb, sconst 0) \<and>
     truncate_seq_pair [1, 2] [3, 4] 3 [0, 0] [1, 1] (sconst 0) =
       truncate_seq_pair ta tb 3 sa sb (sconst 0) \<and>
     ta = [1, 2] \<and> sa = [0, 0] \<and> tb = [4] \<and> sb = [1]"
  using trunc_iteration_trims_longer [of "[0, 0]" "[1, 2]" "[1, 1]" "[3, 4]" 3 "sconst 0"]
  by (simp add: random_random_sconst0)

lemma append_instance_no_assert:
  "ta \<noteq> [] \<Longrightarrow> tb \<noteq> [] \<Longrightarrow> append_instance tk is_next ta tb sa sb res \<noteq> Inl AssertionError"
  by (simp add: append_instance_def Let_def Suc_le_eq)

text \<open>
  Claim C2. For two non-empty token lists and a budget of at least two,
  \<open>truncate_seq_pair\<close> returns without an assertion failure; whenever it returns
  lists, they fit the budget and are both non-empty, so the two assertions after the call
  (lines 542--543) hold as well; and when each origin-id list is as long as its token
  list, as at the call of line 536, it does return lists.
\<close>

theorem truncate_seq_pair_bound:
  assumes "tokens_a \<noteq> []" "tokens_b \<noteq> []" "2 \<le> max_num_tokens"
  shows "\<exists>r. truncate_seq_pair tokens_a tokens_b max_num_tokens a_segment_ids b_segment_ids g
                = Some r \<and>
             r \<noteq> Inl AssertionError \<and>
             (\<forall>ta tb sa sb g'. r = Inr (ta, tb, sa, sb, g') \<longrightarrow>
                int (length ta) + int (length tb) \<le> max_num_tokens \<and>
                1 \<le> length ta \<and> 1 \<le> length tb \<and>
                (\<forall>tk is_next res.
                   append_instance tk is_next ta tb sa sb res \<noteq> Inl AssertionError)) \<and>
             (length a_segment_ids = length tokens_a \<and>
              length b_segment_ids = length tokens_b \<longrightarrow>
                (\<exists>ta tb sa sb g'. r = Inr (ta, tb, sa, sb, g')))"
proof -
  from truncate_seq_pair_invariant [OF assms, of a_segment_ids b_segment_ids g]
  obtain r where r: "truncate_seq_pair tokens_a tokens_b max_num_tokens
        a_segment_ids b_segment_ids g = Some r"
    and na: "r \<noteq> Inl AssertionError"
    and bound': "\<forall>ta tb sa sb g'. r = Inr (ta, tb, sa, sb, g') \<longrightarrow>
        int (length ta) + int (length tb) \<le> max_num_tokens \<and> ta \<noteq> [] \<and> tb \<noteq> []"
    and al': "length a_segment_ids = length tokens_a \<and>
        length b_segment_ids = length tokens_b \<longrightarrow>
        (\<exists>ta tb sa sb g'. r = Inr (ta, tb, sa, sb, g') \<and>
           length sa = length ta \<and> length sb = length tb)"
    by (elim exE conjE)
  have bound: "int (length ta) + int (length tb) \<le> max_num_tokens \<and> ta \<noteq> [] \<and> tb \<noteq> []"
    if "r = Inr (ta, tb, sa, sb, g')" for ta tb sa sb g'
    using bound' that by (elim allE impE) assumption+
  have al: "\<exists>ta tb sa sb g'. r = Inr (ta, tb, sa, sb, g')"
    if "length a_segment_ids = length tokens_a \<and> length b_segment_ids = length tokens_b"
    using al' that by blast
  have post: "int (length ta) + int (length tb) \<le> max_num_tokens \<and>
        1 \<le> length ta \<and> 1 \<le> length tb \<and>
        (\<forall>tk is_next res. append_instance tk is_next ta tb sa sb res \<noteq> Inl AssertionError)"
    if eq: "r = Inr (ta, tb, sa, sb, g')" for ta tb sa sb g'
  proof -
    from bound [OF eq] have b: "int (length ta) + int (length tb) \<le> max_num_tokens"
      and a: "ta \<noteq> []" and c: "tb \<noteq> []" by simp_all
    from a c have "1 \<le> length ta" "1 \<le> length tb" by (simp_all add: Suc_le_eq)
    moreover have "\<forall>tk is_next res.
        append_instance tk is_next ta tb sa sb res \<noteq> Inl AssertionError"
      using append_instance_no_assert [OF a c] by blast
    ultimately show ?thesis using b by simp
  qed
  show ?thesis
  proof (intro exI [of _ r] conjI allI impI)
    show "truncate_seq_pair tokens_a tokens_b max_num_tokens a_segment_ids b_segment_ids g
        = Some r" by (rule r)
    show "r \<noteq> Inl AssertionError" by (rule na)
  next
    fix ta tb sa sb g' assume "r = Inr (ta, tb, sa, sb, g')"
    from post [OF this]
    show "int (length ta) + int (length tb) \<le> max_num_tokens"
      and "1 \<le> length ta" and "1 \<le> length tb" by simp_all
  next
    fix ta tb sa sb g' tk is_next res assume "r = Inr (ta, tb, sa, sb, g')"
    from post [OF this]
    show "append_instance tk is_next ta tb sa sb res \<noteq> Inl AssertionError" by simp
  next
    assume "length a_segment_ids = length tokens_a \<and> length b_segment_ids = length tokens_b"
    from al [OF this]
    show "\<exists>ta tb sa sb g'. r = Inr (ta, tb, sa, sb, g')" .
  qed
qed

theorem truncate_seq_pair_bound_witness:
  "\<exists>r. truncate_seq_pair [1, 2, 3] [4, 5] 3 [0, 0, 1] [2, 2] (sconst 0) = Some r \<and>
       r \<noteq> Inl AssertionError \<and>
       (\<exists>ta tb sa sb g'. r = Inr (ta, tb, sa, sb, g') \<and>
          int (length ta) + int (length tb) \<le> 3 \<and> 1 \<le> length ta \<and> 1 \<le> length tb)"
proof -
  have h: "[1, 2, 3] \<noteq> ([] :: int list)" "[4, 5] \<noteq> ([] :: int list)" "(2 :: int) \<le> 3"
    by simp_all
  from truncate_seq_pair_bound [OF h, of "[0, 0, 1]" "[2, 2]" "sconst 0"]
  obtain r where r: "truncate_seq_pair [1, 2, 3] [4, 5] 3 [0, 0, 1] [2, 2] (sconst 0) = Some r"
    and na: "r \<noteq> Inl AssertionError"
    and post: "\<forall>ta tb sa sb g'. r = Inr (ta, tb, sa, sb, g') \<longrightarrow>
        int (length ta) + int (length tb) \<le> 3 \<and> 1 \<le> length ta \<and> 1 \<le> length tb \<and>
        (\<forall>tk is_next res. append_instance tk is_next ta tb sa sb res \<noteq> Inl AssertionError)"
    and al: "length [0, 0, 1 :: int] = length [1, 2, 3 :: int] \<and>
        length [2, 2 :: int] = length [4, 5 :: int] \<longrightarrow>
        (\<exists>ta tb sa sb g'. r = Inr (ta, tb, sa, sb, g'))"
    by (elim exE conjE)
  from al obtain ta tb sa sb g' where eq: "r = Inr (ta, tb, sa, sb, g')" by auto
  from post eq have "int (length ta) + int (length tb) \<le> 3 \<and> 1 \<le> length ta \<and> 1 \<le> length tb"
    by simp
  with r na eq show ?thesis by blast
qed

section \<open>Concrete runs of the transform\<close>

text \<open>The equations that evaluate the model on a concrete batch.\<close>

lemmas eval_defs = group_texts_def one_pass_def get_all_chunk_def create_instances.simps
  create_instance_def split_chunk_def sample_relation_def choose_rid.simps list_index_def
  chunk_tokens_def chunk_segment_ids_def append_instance_def build_segment_ids_def
  renumber_a_def renumber_b_def random_random_def random_randint_def frac_def
  truncate_seq_pair_exit truncate_seq_pair_iterate trunc_iteration_def del_first_def
  pop_last_def empty_results_def bert_tokenizer_def Let_def

text \<open>
  Claim C7, as stated, fails: for the batch \<open>[[1,2],[3],[4,5,6]]\<close> with
  \<open>max_num_tokens = 10\<close> (a maximal length of 13 and three special tokens), a first
  draw that keeps the target at the maximum, the split point \<open>a_end = 1\<close> and the
  relation draw \<open>0.9\<close>, the output batch is not the one with
  \<open>segment_ids = [0,1,1,2,3,3,3,4]\<close>.
\<close>

theorem scenario_segment_ids_counterexample:
  "group_texts bert_tokenizer 13 1 [[1, 2], [3], [4, 5, 6]]
     ([1 / 2, 0, 9 / 10] @- sconst 0) \<noteq>
   Some (Inr (\<lparr> input_ids = [[101, 1, 2, 102, 3, 4, 5, 6, 102]],
       token_type_ids = [[0, 0, 0, 0, 1, 1, 1, 1, 1]],
       attention_mask = [[1, 1, 1, 1, 1, 1, 1, 1, 1]],
       special_tokens_mask = [[1, 0, 0, 1, 0, 0, 0, 0, 1]],
       next_sentence_label = [0],
       segment_ids = [[0, 1, 1, 2, 3, 3, 3, 4]] \<rparr>, sconst 0))"
  by (simp add: eval_defs upt_rec numeral_eq_Suc)

text \<open>
  Claim C7, amended. In that scenario the split gives \<open>A = [1,2]\<close> and
  \<open>B = [3,4,5,6]\<close> with origin ids \<open>[0,0]\<close> and \<open>[1,2,2,2]\<close>, the relation is
  \<open>SAME_ORDER\<close>, nothing is truncated, and the one emitted instance has
  \<open>special_tokens_mask = [1,0,0,1,0,0,0,0,1]\<close> and
  \<open>segment_ids = [0,1,1,2,3,4,4,4,5]\<close>.
\<close>

theorem scenario_same_order:
  "split_chunk [[1, 2], [3], [4, 5, 6]] ([0, 9 / 10] @- sconst 0) =
     Inr ([1, 2], [3, 4, 5, 6], [0, 0], [1, 2, 2, 2], [9 / 10] @- sconst 0) \<and>
   sample_relation [1, 2] [3, 4, 5, 6] [0, 0] [1, 2, 2, 2] [[[1, 2], [3], [4, 5, 6]]] 0
       ([9 / 10] @- sconst 0) =
     Some (Inr (0, [1, 2], [3, 4, 5, 6], [0, 0], [1, 2, 2, 2], sconst 0)) \<and>
   truncate_seq_pair [1, 2] [3, 4, 5, 6] 10 [0, 0] [1, 2, 2, 2] (sconst 0) =
     Some (Inr ([1, 2], [3, 4, 5, 6], [0, 0], [1, 2, 2, 2], sconst 0)) \<and>
   group_texts bert_tokenizer 13 1 [[1, 2], [3], [4, 5, 6]]
       ([1 / 2, 0, 9 / 10] @- sconst 0) =
     Some (Inr (\<lparr> input_ids = [[101, 1, 2, 102, 3, 4, 5, 6, 102]],
       token_type_ids = [[0, 0, 0, 0, 1, 1, 1, 1, 1]],
       attention_mask = [[1, 1, 1, 1, 1, 1, 1, 1, 1]],
       special_tokens_mask = [[1, 0, 0, 1, 0, 0, 0, 0, 1]],
       next_sentence_label = [0],
       segment_ids = [[0, 1, 1, 2, 3, 4, 4, 4, 5]] \<rparr>, sconst 0))"
  by (simp add: eval_defs upt_rec numeral_eq_Suc)

text \<open>
  Claim C8 fails on the code: when the last segment of the batch is empty, the
  \<open>continue\<close> of line 447 is taken before the end-of-input test of line 451, so the
  non-empty running chunk is never flushed. The batch \<open>[[1,2],[]]\<close> with target 10
  yields no chunk, and the transform emits nothing for \<open>[[1,2],[3],[]]\<close>.
\<close>

theorem trailing_empty_segment_drops_chunk:
  "get_all_chunk [[1, 2], []] 10 = [] \<and>
   group_texts bert_tokenizer 13 1 [[1, 2], [3], []] ([1 / 2] @- sconst 0) =
     Some (Inr (empty_results, sconst 0))"
  by (simp add: eval_defs upt_rec numeral_eq_Suc)

text \<open>
  Claim C1 fails on the code. For the batch \<open>[[1,2]]\<close> the only chunk has one segment;
  its split gives an empty \<open>B\<close> and the \<open>continue\<close> of line 499 is taken. That
  \<open>continue\<close> skips the reset of lines 554--555 and the increment of line 556, so the
  loop appends the same segment to the same buffer again and then emits an instance whose
  \<open>A\<close> and \<open>B\<close> are both the segment \<open>[1,2]\<close>.
\<close>

theorem single_segment_chunk_emits_duplicate:
  "get_all_chunk [[1, 2]] 10 = [[[1, 2]]] \<and>
   create_instance bert_tokenizer 10 [[[1, 2]]] [[1, 2]] 0 empty_results
       ([0, 9 / 10] @- sconst 0) =
     Some (Inr (Skipped ([0, 9 / 10] @- sconst 0))) \<and>
   group_texts bert_tokenizer 13 1 [[1, 2]] ([1 / 2, 0, 9 / 10] @- sconst 0) =
     Some (Inr (\<lparr> input_ids = [[101, 1, 2, 102, 1, 2, 102]],
       token_type_ids = [[0, 0, 0, 0, 1, 1, 1]],
       attention_mask = [[1, 1, 1, 1, 1, 1, 1]],
       special_tokens_mask = [[1, 0, 0, 1, 0, 0, 1]],
       next_sentence_label = [0],
       segment_ids = [[0, 1, 1, 2, 3, 3, 4]] \<rparr>, sconst 0))"
  by (simp add: eval_defs upt_rec numeral_eq_Suc)

text \<open>
  Claim C5 fails on the code, by the defect of claim C1. For the batch \<open>[[1,2],[3,4]]\<close>
  with target length 2 the chunks are \<open>[[1,2]]\<close> and \<open>[[3,4]]\<close>. The first one is
  retried after the \<open>continue\<close> of line 499 with \<open>chunk_id\<close> incremented a second time,
  to 1, while its index in \<open>total_chunk\<close> is 0. The rejection loop then refuses index 1,
  the other chunk, and accepts index 0: the \<open>RANDOM\<close> instance gets the tokens of the
  chunk being processed as its replacement for \<open>B\<close>.
\<close>

theorem random_replacement_is_own_chunk:
  "get_all_chunk [[1, 2], [3, 4]] 2 = [[[1, 2]], [[3, 4]]] \<and>
   choose_rid 2 1 ([1 / 2, 0] @- sconst 0) = Some (Inr (0, sconst 0)) \<and>
   group_texts bert_tokenizer 13 1 [[1, 2], [3, 4]]
       ([1 / 20, 0, 0, 1 / 2, 1 / 2, 0, 0, 9 / 10] @- sconst 0) =
     Some (Inr (\<lparr> input_ids = [[101, 1, 2, 102, 1, 2, 102], [101, 3, 4, 102, 3, 4, 102]],
       token_type_ids = [[0, 0, 0, 0, 1, 1, 1], [0, 0, 0, 0, 1, 1, 1]],
       attention_mask = [[1, 1, 1, 1, 1, 1, 1], [1, 1, 1, 1, 1, 1, 1]],
       special_tokens_mask = [[1, 0, 0, 1, 0, 0, 1], [1, 0, 0, 1, 0, 0, 1]],
       next_sentence_label = [2, 0],
       segment_ids = [[0, 1, 1, 2, 3, 3, 4], [0, 1, 1, 2, 3, 3, 4]] \<rparr>, sconst 0))"
  by (simp add: eval_defs upt_rec numeral_eq_Suc)

section \<open>Properties of the relation choice and of the second loop\<close>




lemma create_instances_preserves_aux:
  assumes run: "create_instances tk examples m t total_chunk i cc cl cid res g = Some r"
  shows "(\<forall>chunk cid res g res' g'. Q res \<longrightarrow>
        create_instance tk m total_chunk chunk cid res g = Some (Inr (Emitted res' g')) \<longrightarrow>
        Q res') \<longrightarrow>
     r = Inr (res', g') \<longrightarrow> Q res \<longrightarrow> Q res'"
proof (rule create_instances.raw_induct [OF _ run], goal_cases)
  case (1 f tk examples m t total_chunk i cc cl cid res g r)
  show ?case
  proof (intro impI)
    assume step: "\<forall>chunk cid res g res' g'. Q res \<longrightarrow>
        create_instance tk m total_chunk chunk cid res g = Some (Inr (Emitted res' g')) \<longrightarrow>
        Q res'"
      and r: "r = Inr (res', g')" and q: "Q res"
    have IH: "Q res'" if "f tk examples m t total_chunk i' cc' cl' cid' res0 g0 = Some r" "Q res0"
      for i' cc' cl' cid' res0 g0
      using "1"(1) [OF that(1)] step r that(2) by blast
    have IHe: "Q res'"
      if "create_instance tk m total_chunk c k res g = Some (Inr (Emitted r1 g1))"
        "f tk examples m t total_chunk i' cc' cl' cid' r1 g1 = Some r"
      for c k r1 g1 i' cc' cl' cid'
    proof -
      from step q that(1) have "Q r1" by blast
      from IH [OF that(2) this] show ?thesis .
    qed
    have IHs: "Q res'" if "f tk examples m t total_chunk i' cc' cl' cid' res g0 = Some r"
      for i' cc' cl' cid' g0
      using IH [OF that q] .
    show "Q res'"
      using "1"(2) q
      by (auto simp: Let_def r split: if_splits option.splits sum.splits flush_outcome.splits
          intro: IHe [unfolded r] IHs [unfolded r])
  qed
qed

lemma create_instances_preserves:
  assumes "create_instances tk examples m t total_chunk i cc cl cid res g = Some (Inr (res', g'))"
    and "\<And>chunk cid res g res' g'. Q res \<Longrightarrow>
        create_instance tk m total_chunk chunk cid res g = Some (Inr (Emitted res' g')) \<Longrightarrow> Q res'"
    and "Q res"
  shows "Q res'"
  using create_instances_preserves_aux [OF assms(1), of Q res' g'] assms(2,3) by blast

lemma one_pass_preserves:
  assumes "one_pass tk max_seq_length examples res g = Some (Inr (res', g'))"
    and step: "\<And>t chunk cid res g res' g'. Q res \<Longrightarrow>
        create_instance tk (max_seq_length - num_special_tokens_to_add tk)
          (get_all_chunk examples t) chunk cid res g = Some (Inr (Emitted res' g')) \<Longrightarrow> Q res'"
    and "Q res"
  shows "Q res'"
proof -
  from assms(1) obtain t g2 where
    "create_instances tk examples (max_seq_length - num_special_tokens_to_add tk) t
       (get_all_chunk examples t) 0 [] 0 (- 1) res g2 = Some (Inr (res', g'))"
    by (auto simp: one_pass_def Let_def split: prod.splits sum.splits if_splits)
  from create_instances_preserves [OF this, of Q] step assms(3) show ?thesis by blast
qed

lemma passes_preserves:
  assumes "passes n tk max_seq_length examples res g = Some (Inr (res', g'))"
    and step: "\<And>t chunk cid res g res' g'. Q res \<Longrightarrow>
        create_instance tk (max_seq_length - num_special_tokens_to_add tk)
          (get_all_chunk examples t) chunk cid res g = Some (Inr (Emitted res' g')) \<Longrightarrow> Q res'"
    and "Q res"
  shows "Q res'"
  using assms(1,3)
proof (induction n arbitrary: res g)
  case 0
  then show ?case by simp
next
  case (Suc n)
  from Suc.prems(1) obtain res1 g1 where
    one: "one_pass tk max_seq_length examples res g = Some (Inr (res1, g1))"
    and rest: "passes n tk max_seq_length examples res1 g1 = Some (Inr (res', g'))"
    by (auto split: option.splits sum.splits)
  from one_pass_preserves [OF one, of Q] step Suc.prems(2) have "Q res1" by blast
  from Suc.IH [OF rest this] show ?case .
qed

lemma create_instance_emitted:
  assumes "create_instance tk m total_chunk chunk cid res g = Some (Inr (Emitted res' g'))"
  shows "\<exists>a b ia ib g1 is_next ta tb sa sb g2 ta' tb' sa' sb'.
     split_chunk chunk g = Inr (a, b, ia, ib, g1) \<and> a \<noteq> [] \<and> b \<noteq> [] \<and>
     sample_relation a b ia ib total_chunk cid g1 = Some (Inr (is_next, ta, tb, sa, sb, g2)) \<and>
     truncate_seq_pair ta tb m sa sb g2 = Some (Inr (ta', tb', sa', sb', g')) \<and>
     append_instance tk is_next ta' tb' sa' sb' res = Inr res'"
  using assms
  by (auto simp: create_instance_def split: sum.splits prod.splits if_splits option.splits)

lemma sample_relation_label:
  assumes "sample_relation a b ia ib total_chunk cid g = Some (Inr (l, ta, tb, sa, sb, g2))"
  shows "l = 0 \<or> l = 1 \<or> (l = 2 \<and> 1 < length total_chunk)"
  using assms
  by (auto simp: sample_relation_def Let_def
      split: prod.splits if_splits option.splits sum.splits)

lemma append_instance_label:
  assumes "append_instance tk l ta tb sa sb res = Inr res'"
  shows "next_sentence_label res' = next_sentence_label res @ [l]"
  using assms by (auto simp: append_instance_def Let_def split: if_splits)

lemma create_instance_label:
  assumes "create_instance tk m total_chunk chunk cid res g = Some (Inr (Emitted res' g'))"
    and "length total_chunk \<le> 1" and "2 \<notin> set (next_sentence_label res)"
  shows "2 \<notin> set (next_sentence_label res')"
proof -
  from create_instance_emitted [OF assms(1)]
  obtain a b ia ib g1 l ta tb sa sb g2 ta' tb' sa' sb' where
    rel: "sample_relation a b ia ib total_chunk cid g1 = Some (Inr (l, ta, tb, sa, sb, g2))"
    and app: "append_instance tk l ta' tb' sa' sb' res = Inr res'"
    by blast
  from sample_relation_label [OF rel] assms(2) have "l \<noteq> 2" by auto
  with append_instance_label [OF app] assms(3) show ?thesis by simp
qed

lemma group_texts_single_chunk:
  assumes "group_texts tk max_seq_length dupe_factor examples g = Some (Inr (res, g'))"
    and "\<forall>t. length (get_all_chunk examples t) \<le> 1"
  shows "2 \<notin> set (next_sentence_label res)"
proof -
  have "2 \<notin> set (next_sentence_label empty_results)" by (simp add: empty_results_def)
  from passes_preserves [OF assms(1) [unfolded group_texts_def],
      of "\<lambda>r. 2 \<notin> set (next_sentence_label r)"] this assms(2) create_instance_label
  show ?thesis by blast
qed











section \<open>Properties of the segment ids\<close>

lemma sorted_concat_replicate:
  assumes "sorted (map v ps)"
  shows "sorted (concat (map (\<lambda>p. replicate (n p) (v p :: int)) ps))"
  using assms
proof (induction ps)
  case Nil
  then show ?case by simp
next
  case (Cons p ps)
  then show ?case by (auto simp: sorted_append)
qed

lemma sorted_int_upt: "sorted (map int [lo..<hi])"
  by (simp add: sorted_map)

lemma split_chunk_sorted:
  assumes "split_chunk chunk g = Inr (a, b, ia, ib, g1)"
  shows "sorted ia \<and> sorted ib \<and> length ia = length a \<and> length ib = length b"
proof -
  have s: "sorted (concat (map (\<lambda>j. replicate (length (chunk ! j)) (int j)) [lo..<hi]))"
    for lo hi
    using sorted_concat_replicate [OF sorted_int_upt, of "\<lambda>j. length (chunk ! j)" lo hi] .
  have l: "length (concat (map (\<lambda>j. replicate (length (chunk ! j)) (int j)) xs)) =
      length (concat (map (\<lambda>j. chunk ! j) xs))" for xs :: "nat list"
    by (induction xs) simp_all
  from assms show ?thesis
    by (auto simp: split_chunk_def s l split: sum.splits prod.splits if_splits)
qed

lemma chunk_segment_ids_sorted:
  "sorted (chunk_segment_ids c) \<and> length (chunk_segment_ids c) = length (chunk_tokens c)"
proof -
  have e: "map fst (enumerate 0 c) = [0..<length c]" by (simp add: map_fst_enumerate)
  have "map (\<lambda>(acid, ac). int acid) (enumerate 0 c) = map (int \<circ> fst) (enumerate 0 c)"
    by (simp add: comp_def case_prod_beta)
  also have "\<dots> = map int (map fst (enumerate 0 c))" by (simp only: map_map)
  also have "\<dots> = map int [0..<length c]" by (simp only: e)
  finally have "map (\<lambda>(acid, ac). int acid) (enumerate 0 c) = map int [0..<length c]" .
  then have "sorted (map (\<lambda>(acid, ac). int acid) (enumerate 0 c))"
    using sorted_int_upt by simp
  from sorted_concat_replicate [OF this, of "\<lambda>(acid, ac). length ac"]
  have s: "sorted (chunk_segment_ids c)"
    by (simp add: chunk_segment_ids_def split_def)
  have "length (concat (map (\<lambda>(acid, ac). replicate (length ac) (int acid)) (enumerate k c))) =
      length (concat c)" for k
    by (induction c arbitrary: k) simp_all
  with s show ?thesis by (simp add: chunk_segment_ids_def chunk_tokens_def)
qed

lemma sorted_hd_last:
  assumes "sorted (xs :: int list)" "x \<in> set xs"
  shows "hd xs \<le> x \<and> x \<le> last xs"
proof -
  from assms(2) have ne: "xs \<noteq> []" by auto
  have "hd xs \<le> x" using assms ne by (cases xs) auto
  moreover have "x \<le> last xs"
  proof -
    from ne obtain ys y where xs: "xs = ys @ [y]" by (cases xs rule: rev_cases) auto
    with assms show ?thesis by (auto simp: sorted_append)
  qed
  ultimately show ?thesis ..
qed

lemma build_segment_ids_sorted:
  assumes "a \<noteq> []" "b \<noteq> []" "sorted a" "sorted b"
  shows "sorted (build_segment_ids a b) \<and>
     (\<forall>x \<in> set (renumber_a a). x < last (renumber_a a) + 1) \<and>
     (\<forall>x \<in> set (renumber_b (renumber_a a) b). x < last (renumber_b (renumber_a a) b) + 1)"
proof -
  let ?a = "renumber_a a" and ?b = "renumber_b (renumber_a a) b"
  have la: "last ?a = last a - hd a + 1" using assms(1) by (simp add: renumber_a_def last_map)
  have lb: "last ?b = last b - hd b + last ?a + 2"
    using assms(2) by (simp add: renumber_b_def last_map)
  have sa: "sorted ?a" using assms(3)
    by (simp add: renumber_a_def sorted_map sorted_wrt_iff_nth_less)
  have sb: "sorted ?b" using assms(4)
    by (simp add: renumber_b_def sorted_map sorted_wrt_iff_nth_less)
  have ra: "1 \<le> x \<and> x \<le> last ?a" if "x \<in> set ?a" for x
    using that sorted_hd_last [OF assms(3)] la by (auto simp: renumber_a_def)
  have rb: "last ?a + 2 \<le> x \<and> x \<le> last ?b" if "x \<in> set ?b" for x
    using that sorted_hd_last [OF assms(4)] lb by (auto simp: renumber_b_def)
  have "?a \<noteq> []" using assms(1) by (simp add: renumber_a_def)
  then have "last ?a \<in> set ?a" by (rule last_in_set)
  from ra [OF this] have la1: "1 \<le> last ?a" by simp
  have "?b \<noteq> []" using assms(2) by (simp add: renumber_b_def)
  then have "last ?b \<in> set ?b" by (rule last_in_set)
  from rb [OF this] have lab: "last ?a + 2 \<le> last ?b" by simp
  have "sorted ([0] @ ?a @ [last ?a + 1] @ ?b @ [last ?b + 1])"
    unfolding sorted_append
  proof (intro conjI ballI)
    show "sorted [0 :: int]" "sorted [last ?a + 1]" "sorted [last ?b + 1]" by simp_all
    show "sorted ?a" "sorted ?b" by (rule sa, rule sb)
  next
    fix x y assume "x \<in> set ?b" "y \<in> set [last ?b + 1]"
    with rb [of x] show "x \<le> y" by simp
  next
    fix x y assume "x \<in> set [last ?a + 1]" "y \<in> set (?b @ [last ?b + 1])"
    with rb [of y] lab show "x \<le> y" by auto
  next
    fix x y assume "x \<in> set ?a" "y \<in> set ([last ?a + 1] @ ?b @ [last ?b + 1])"
    with ra [of x] rb [of y] lab show "x \<le> y" by auto
  next
    fix x y assume "x \<in> set [0 :: int]"
      "y \<in> set (?a @ [last ?a + 1] @ ?b @ [last ?b + 1])"
    with ra [of y] rb [of y] la1 lab show "x \<le> y" by auto
  qed
  then have "sorted (build_segment_ids a b)" by (simp add: build_segment_ids_def Let_def)
  moreover have "\<forall>x \<in> set ?a. x < last ?a + 1" using ra by fastforce
  moreover have "\<forall>x \<in> set ?b. x < last ?b + 1" using rb by fastforce
  ultimately show ?thesis by blast
qed

lemma sample_relation_sorted:
  assumes "sample_relation a b ia ib total_chunk cid g = Some (Inr (l, ta, tb, sa, sb, g2))"
    and "sorted ia" "sorted ib"
  shows "sorted sa \<and> sorted sb"
  using assms chunk_segment_ids_sorted
  by (auto simp: sample_relation_def Let_def
      split: prod.splits if_splits option.splits sum.splits)

lemma trunc_iteration_sorted:
  assumes "trunc_iteration ta tb sa sb g = Inr (ta', tb', sa', sb', g')"
    and "sorted sa" "sorted sb"
  shows "sorted sa' \<and> sorted sb'"
  using assms
  by (auto simp: trunc_iteration_def Let_def del_first_def pop_last_def sorted_tl sorted_butlast
      split: if_splits sum.splits prod.splits)

lemma truncate_seq_pair_sorted_aux:
  assumes run: "truncate_seq_pair ta tb m sa sb g = Some r"
  shows "sorted sa \<and> sorted sb \<longrightarrow>
     (\<forall>ta' tb' sa' sb' g'. r = Inr (ta', tb', sa', sb', g') \<longrightarrow> sorted sa' \<and> sorted sb')"
proof (rule truncate_seq_pair.raw_induct [OF _ run], goal_cases)
  case (1 f ta tb m sa sb g r)
  show ?case
  proof (intro impI allI)
    fix ta' tb' sa' sb' g'
    assume s: "sorted sa \<and> sorted sb" and r: "r = Inr (ta', tb', sa', sb', g')"
    show "sorted sa' \<and> sorted sb'"
    proof (cases "int (length ta) + int (length tb) \<le> m")
      case True
      with "1"(2) r s show ?thesis by (simp add: Let_def)
    next
      case False
      with "1"(2) r obtain ta1 tb1 sa1 sb1 g1 where
        it: "trunc_iteration ta tb sa sb g = Inr (ta1, tb1, sa1, sb1, g1)"
        and rec: "f ta1 tb1 m sa1 sb1 g1 = Some r"
        by (auto simp: Let_def split: sum.splits)
      from trunc_iteration_sorted [OF it] s have "sorted sa1 \<and> sorted sb1" by simp
      with "1"(1) [OF rec] r show ?thesis by blast
    qed
  qed
qed

lemma append_instance_segment_ids:
  assumes "append_instance tk l ta tb sa sb res = Inr res'"
  shows "segment_ids res' = segment_ids res @ [build_segment_ids sa sb] \<and> sa \<noteq> [] \<and> sb \<noteq> []"
  using assms by (auto simp: append_instance_def Let_def split: if_splits)

lemma create_instance_segment_ids:
  assumes em: "create_instance tk m total_chunk chunk cid res g = Some (Inr (Emitted res' g'))"
  shows "\<exists>a b. a \<noteq> [] \<and> b \<noteq> [] \<and> sorted a \<and> sorted b \<and>
     segment_ids res' = segment_ids res @ [build_segment_ids a b]"
proof -
  from create_instance_emitted [OF em]
  obtain a b ia ib g1 l ta tb sa sb g2 ta' tb' sa' sb' where
    sp: "split_chunk chunk g = Inr (a, b, ia, ib, g1)"
    and rel: "sample_relation a b ia ib total_chunk cid g1 = Some (Inr (l, ta, tb, sa, sb, g2))"
    and tr: "truncate_seq_pair ta tb m sa sb g2 = Some (Inr (ta', tb', sa', sb', g'))"
    and app: "append_instance tk l ta' tb' sa' sb' res = Inr res'"
    by blast
  from split_chunk_sorted [OF sp] have "sorted ia" "sorted ib" by simp_all
  from sample_relation_sorted [OF rel this] have "sorted sa \<and> sorted sb" .
  with truncate_seq_pair_sorted_aux [OF tr] have "sorted sa'" "sorted sb'" by blast+
  with append_instance_segment_ids [OF app] show ?thesis by blast
qed

text \<open>
  Claim C6. Every segment-id sequence in the output of \<open>group_texts\<close> is
  \<open>[0] + a' + [a'[-1]+1] + b' + [b'[-1]+1]\<close> for two non-empty origin-id lists \<open>a\<close> and
  \<open>b\<close> renumbered to \<open>a'\<close> and \<open>b'\<close> by lines 551--552; it is non-decreasing, and
  each of the two sentinels is strictly greater than every id of the half it closes.
\<close>

theorem segment_ids_monotone:
  assumes "group_texts tk max_seq_length dupe_factor examples g = Some (Inr (res, g'))"
  shows "\<forall>s \<in> set (segment_ids res).
     \<exists>a b. a \<noteq> [] \<and> b \<noteq> [] \<and> s = build_segment_ids a b \<and> sorted s \<and>
       (\<forall>x \<in> set (renumber_a a). x < last (renumber_a a) + 1) \<and>
       (\<forall>x \<in> set (renumber_b (renumber_a a) b).
          x < last (renumber_b (renumber_a a) b) + 1)"
proof -
  let ?G = "\<lambda>s. \<exists>a b. a \<noteq> [] \<and> b \<noteq> [] \<and> s = build_segment_ids a b \<and> sorted s \<and>
       (\<forall>x \<in> set (renumber_a a). x < last (renumber_a a) + 1) \<and>
       (\<forall>x \<in> set (renumber_b (renumber_a a) b).
          x < last (renumber_b (renumber_a a) b) + 1)"
  let ?Q = "\<lambda>r. \<forall>s \<in> set (segment_ids r). ?G s"
  have step: "?Q r'" if q: "?Q r"
    and em: "create_instance tk m tc chunk cid r g0 = Some (Inr (Emitted r' g1))"
    for m tc chunk cid r g0 r' g1
  proof -
    from create_instance_segment_ids [OF em]
    obtain a b where ab: "a \<noteq> []" "b \<noteq> []" "sorted a" "sorted b"
      and eq: "segment_ids r' = segment_ids r @ [build_segment_ids a b]" by blast
    have "?G (build_segment_ids a b)"
      using build_segment_ids_sorted [OF ab] ab(1,2)
      by (intro exI [of _ a] exI [of _ b]) simp
    with q show ?thesis unfolding eq by simp
  qed
  have init: "?Q empty_results" by (simp add: empty_results_def)
  have run: "passes (nat dupe_factor) tk max_seq_length examples empty_results g =
      Some (Inr (res, g'))" using assms by (simp add: group_texts_def)
  show ?thesis
    by (rule passes_preserves [where Q = ?Q, OF run _ init]) (rule step)
qed

theorem segment_ids_monotone_witness:
  "\<exists>a b. [0, 1, 1, 2, 3, 4, 4, 4, 5] = build_segment_ids a b \<and>
     sorted (build_segment_ids a b) \<and>
     list_all (\<lambda>x. x < last (renumber_a a) + 1) (renumber_a a) \<and>
     list_all (\<lambda>x. x < last (renumber_b (renumber_a a) b) + 1)
       (renumber_b (renumber_a a) b)"
proof -
  let ?res = "\<lparr> input_ids = [[101, 1, 2, 102, 3, 4, 5, 6, 102]],
       token_type_ids = [[0, 0, 0, 0, 1, 1, 1, 1, 1]],
       attention_mask = [[1, 1, 1, 1, 1, 1, 1, 1, 1]],
       special_tokens_mask = [[1, 0, 0, 1, 0, 0, 0, 0, 1]],
       next_sentence_label = [0],
       segment_ids = [[0, 1, 1, 2, 3, 4, 4, 4, 5]] \<rparr>"
  have run: "group_texts bert_tokenizer 13 1 [[1, 2], [3], [4, 5, 6]]
       ([1 / 2, 0, 9 / 10] @- sconst 0) =
     Some (Inr (\<lparr> input_ids = [[101, 1, 2, 102, 3, 4, 5, 6, 102]],
       token_type_ids = [[0, 0, 0, 0, 1, 1, 1, 1, 1]],
       attention_mask = [[1, 1, 1, 1, 1, 1, 1, 1, 1]],
       special_tokens_mask = [[1, 0, 0, 1, 0, 0, 0, 0, 1]],
       next_sentence_label = [0],
       segment_ids = [[0, 1, 1, 2, 3, 4, 4, 4, 5]] \<rparr>, sconst 0))"
    by (simp add: eval_defs upt_rec numeral_eq_Suc)
  let ?s = "[0, 1, 1, 2, 3, 4, 4, 4, 5] :: int list"
  have run': "group_texts bert_tokenizer 13 1 [[1, 2], [3], [4, 5, 6]]
       ([1 / 2, 0, 9 / 10] @- sconst 0) = Some (Inr (?res, sconst 0))"
    by (rule run)
  have mem: "?s \<in> set (segment_ids ?res)" by simp
  from bspec [OF segment_ids_monotone [OF run'] mem]
  obtain a b where e: "?s = build_segment_ids a b" and s: "sorted ?s"
    and sa: "\<forall>x \<in> set (renumber_a a). x < last (renumber_a a) + 1"
    and sb: "\<forall>x \<in> set (renumber_b (renumber_a a) b).
        x < last (renumber_b (renumber_a a) b) + 1"
    by blast
  from s e have s': "sorted (build_segment_ids a b)" by simp
  from sa have la: "list_all (\<lambda>x. x < last (renumber_a a) + 1) (renumber_a a)"
    by (simp only: list_all_iff)
  from sb have lb: "list_all (\<lambda>x. x < last (renumber_b (renumber_a a) b) + 1)
       (renumber_b (renumber_a a) b)"
    by (simp only: list_all_iff)
  from e s' la lb show ?thesis by blast
qed

end
